theory Spec2Isabelle
  imports Main
begin

section \<open>JavaScript values\<close>

text \<open>
  Field values, reset values and the submission result are JavaScript values. Only their
  shape (array or not), their truthiness and their structure matter to the form engine, so
  numbers are integers here. An object is its list of entries in insertion order.
\<close>

datatype jsval =
    JUndefined
  | JNull
  | JBool bool
  | JNum int
  | JStr string
  | JArr "jsval list"
  | JObj "(string \<times> jsval) list"

text \<open>The truthiness that \<^verbatim>\<open>||\<close> and \<^verbatim>\<open>!\<close> test.\<close>

fun truthy :: "jsval \<Rightarrow> bool" where
  "truthy JUndefined = False"
| "truthy JNull = False"
| "truthy (JBool b) = b"
| "truthy (JNum n) = (n \<noteq> 0)"
| "truthy (JStr s) = (s \<noteq> [])"
| "truthy (JArr xs) = True"
| "truthy (JObj kvs) = True"

text \<open>\<^verbatim>\<open>a || b\<close>\<close>

definition js_or :: "jsval \<Rightarrow> jsval \<Rightarrow> jsval" where
  "js_or a b = (if truthy a then a else b)"

text \<open>\<^verbatim>\<open>Array.isArray(v)\<close>\<close>

fun isArray :: "jsval \<Rightarrow> bool" where
  "isArray (JArr xs) = True"
| "isArray v = False"

section \<open>Field handles\<close>

text \<open>
  The two objects that stand for the form: \<^verbatim>\<open>baseValue\<close>, the internal working set, and
  \<^verbatim>\<open>value\<close>, the object published through the context and the ref.
\<close>

datatype form_handle = BaseValue | PublicValue

text \<open>What a validator throws or rejects with: \<^verbatim>\<open>ZodError | string\<close>.\<close>

datatype validation_error = ZodError "string list" | StringError string

text \<open>
  A validator receives the field's value and the form; it resolves (\<open>None\<close>) or
  throws (\<open>Some e\<close>).
\<close>

type_synonym validator = "jsval \<Rightarrow> form_handle \<Rightarrow> validation_error option"

datatype validation_type = OnChangeValidate | OnBlurValidate | OnSubmitValidate

text \<open>\<^verbatim>\<open>field.props\<close>: an absent optional property is \<open>JUndefined\<close> or \<open>None\<close>.\<close>

record field_props =
  name :: string
  resetWithValue :: jsval
  initialValue :: jsval
  onChangeValidate :: "validator option"
  onBlurValidate :: "validator option"
  onSubmitValidate :: "validator option"

text \<open>
  \<^verbatim>\<open>FieldInstance | FieldArrayInstance\<close>, as far as the form reads and writes it.
  \<open>normalizedDotName\<close> is \<^verbatim>\<open>_normalizedDotName\<close> and \<open>fieldValue\<close> is \<^verbatim>\<open>value\<close>.
\<close>

record field =
  props :: field_props
  normalizedDotName :: string
  fieldValue :: jsval
  errors :: "string list"
  isDirty :: bool
  isTouched :: bool

text \<open>
  Modelled from the spec: the setters of a field handle (\<^verbatim>\<open>setValue\<close>, \<^verbatim>\<open>setValues\<close>,
  \<^verbatim>\<open>setErrors\<close>, \<^verbatim>\<open>setIsDirty\<close>, \<^verbatim>\<open>setIsTouched\<close>) belong to the field components, which are
  not among the sources. Each one replaces the corresponding piece of the field's state.
\<close>

definition setValue :: "jsval \<Rightarrow> field \<Rightarrow> field" where
  "setValue v f = f\<lparr>fieldValue := v\<rparr>"

definition setValues :: "jsval \<Rightarrow> field \<Rightarrow> field" where
  "setValues v f = f\<lparr>fieldValue := v\<rparr>"

definition setErrors :: "string list \<Rightarrow> field \<Rightarrow> field" where
  "setErrors es f = f\<lparr>errors := es\<rparr>"

definition field_setIsDirty :: "bool \<Rightarrow> field \<Rightarrow> field" where
  "field_setIsDirty b f = f\<lparr>isDirty := b\<rparr>"

definition field_setIsTouched :: "bool \<Rightarrow> field \<Rightarrow> field" where
  "field_setIsTouched b f = f\<lparr>isTouched := b\<rparr>"

section \<open>The state of the form component\<close>

text \<open>
  The refs and the \<^verbatim>\<open>useState\<close> cells of \<^verbatim>\<open>FormComp\<close>. The four cache cells
  \<^verbatim>\<open>_errors\<close>, \<^verbatim>\<open>_isValid\<close>, \<^verbatim>\<open>_isDirty\<close>, \<^verbatim>\<open>_isTouched\<close> hold \<open>None\<close> for
  \<^verbatim>\<open>null\<close>. Every state update is followed by a render before the next operation runs, so
  the callbacks always read the current cells.
\<close>

record form_state =
  formFieldsRef :: "field list"
  isSubmitted :: bool
  cached_errors :: "string list option"
  cached_isValid :: "bool option"
  cached_isDirty :: "bool option"
  cached_isTouched :: "bool option"
  shouldRerenderErrorOnRecompute :: bool
  shouldRerenderIsValidOnRecompute :: bool
  shouldRerenderIsDirtyOnRecompute :: bool
  shouldRerenderIsTouchedOnRecompute :: bool

text \<open>The state at mount, around a given registry.\<close>

definition initial_state :: "field list \<Rightarrow> form_state" where
  "initial_state fs =
     \<lparr>formFieldsRef = fs, isSubmitted = False,
      cached_errors = None, cached_isValid = None,
      cached_isDirty = None, cached_isTouched = None,
      shouldRerenderErrorOnRecompute = False,
      shouldRerenderIsValidOnRecompute = False,
      shouldRerenderIsDirtyOnRecompute = False,
      shouldRerenderIsTouchedOnRecompute = False\<rparr>"

definition setIsTouched :: "bool \<Rightarrow> form_state \<Rightarrow> form_state" where
  "setIsTouched v st = st\<lparr>formFieldsRef := map (field_setIsTouched v) (formFieldsRef st)\<rparr>"

definition setIsDirty :: "bool \<Rightarrow> form_state \<Rightarrow> form_state" where
  "setIsDirty v st = st\<lparr>formFieldsRef := map (field_setIsDirty v) (formFieldsRef st)\<rparr>"

section \<open>Aggregates\<close>

definition getErrors :: "form_state \<Rightarrow> string list" where
  "getErrors st = foldl (\<lambda>acc f. acc @ errors f) [] (formFieldsRef st)"

definition getValidBoolean :: "form_state \<Rightarrow> bool" where
  "getValidBoolean st =
     (if length (formFieldsRef st) = 0 then True
      else list_all (\<lambda>f. length (errors f) = 0) (formFieldsRef st))"

text \<open>The key \<^verbatim>\<open>booleanFieldName\<close> is passed as the selector it names.\<close>

definition getFieldBoolean :: "(field \<Rightarrow> bool) \<Rightarrow> form_state \<Rightarrow> bool" where
  "getFieldBoolean booleanFieldName st = list_ex (\<lambda>f. booleanFieldName f) (formFieldsRef st)"

section \<open>Recompute entry points and getters\<close>

definition recomputeErrors :: "form_state \<Rightarrow> form_state" where
  "recomputeErrors st =
     (let st1 = (if shouldRerenderErrorOnRecompute st
                 then st\<lparr>cached_errors := Some (getErrors st)\<rparr> else st)
      in if shouldRerenderIsValidOnRecompute st1
         then st1\<lparr>cached_isValid := Some (getValidBoolean st1)\<rparr> else st1)"

definition recomputeIsDirty :: "form_state \<Rightarrow> form_state" where
  "recomputeIsDirty st =
     (if shouldRerenderIsDirtyOnRecompute st
      then st\<lparr>cached_isDirty := Some (getFieldBoolean isDirty st)\<rparr> else st)"

definition recomputeIsTouched :: "form_state \<Rightarrow> form_state" where
  "recomputeIsTouched st =
     (if shouldRerenderIsTouchedOnRecompute st
      then st\<lparr>cached_isTouched := Some (getFieldBoolean isTouched st)\<rparr> else st)"

text \<open>A getter returns the value read and the state it leaves.\<close>

definition errorGetter :: "form_state \<Rightarrow> string list \<times> form_state" where
  "errorGetter st =
     (let st1 = st\<lparr>shouldRerenderErrorOnRecompute := True\<rparr>
      in case cached_errors st1 of
           None \<Rightarrow> (getErrors st1, st1\<lparr>cached_errors := Some (getErrors st1)\<rparr>)
         | Some v \<Rightarrow> (v, st1))"

definition isValidGetter :: "form_state \<Rightarrow> bool \<times> form_state" where
  "isValidGetter st =
     (let st1 = st\<lparr>shouldRerenderIsValidOnRecompute := True\<rparr>
      in case cached_isValid st1 of
           None \<Rightarrow> (getValidBoolean st1, st1\<lparr>cached_isValid := Some (getValidBoolean st1)\<rparr>)
         | Some v \<Rightarrow> (v, st1))"

definition isDirtyGetter :: "form_state \<Rightarrow> bool \<times> form_state" where
  "isDirtyGetter st =
     (case cached_isDirty st of
        None \<Rightarrow>
          (let st1 = st\<lparr>shouldRerenderIsDirtyOnRecompute := True\<rparr>
           in (getFieldBoolean isDirty st1,
               st1\<lparr>cached_isDirty := Some (getFieldBoolean isDirty st1)\<rparr>))
      | Some v \<Rightarrow> (v, st))"

definition isTouchedGetter :: "form_state \<Rightarrow> bool \<times> form_state" where
  "isTouchedGetter st =
     (case cached_isTouched st of
        None \<Rightarrow>
          (let st1 = st\<lparr>shouldRerenderIsTouchedOnRecompute := True\<rparr>
           in (getFieldBoolean isTouched st1,
               st1\<lparr>cached_isTouched := Some (getFieldBoolean isTouched st1)\<rparr>))
      | Some v \<Rightarrow> (v, st))"

section \<open>Reset\<close>

definition reset_field :: "field \<Rightarrow> field" where
  "reset_field f =
     (let v = js_or (resetWithValue (props f)) (initialValue (props f))
      in if isArray (fieldValue f)
         then setValues (js_or v (JArr [])) f
         else setValue (js_or v (JStr [])) f)"

definition reset :: "form_state \<Rightarrow> form_state" where
  "reset st =
     st\<lparr>formFieldsRef := map reset_field (formFieldsRef st),
        cached_isDirty := Some False,
        cached_isTouched := Some False,
        cached_errors := None\<rparr>"

section \<open>Name lookup\<close>

text \<open>
  Modelled from the spec: \<^verbatim>\<open>stringToPath\<close> of \<^verbatim>\<open>../utils\<close> is not among the sources. The
  spec describes the normalized dotted name as the path string canonicalized into segments
  joined by dots, independent of array-index notation: the path is cut at every dot and
  bracket, and empty pieces are dropped, so that \<^verbatim>\<open>list[0]\<close> has the segments \<^verbatim>\<open>list\<close>, \<^verbatim>\<open>0\<close>.
\<close>

fun segments :: "string \<Rightarrow> string list" where
  "segments [] = [[]]"
| "segments (c # cs) =
     (if c = CHR ''.'' \<or> c = CHR ''['' \<or> c = CHR '']'' then [] # segments cs
      else (case segments cs of [] \<Rightarrow> [[c]] | s # ss \<Rightarrow> (c # s) # ss))"

definition stringToPath :: "string \<Rightarrow> string list" where
  "stringToPath path = filter (\<lambda>key. length key > 0) (segments path)"

text \<open>\<^verbatim>\<open>segs.join(".")\<close>\<close>

fun joinDot :: "string list \<Rightarrow> string" where
  "joinDot [] = []"
| "joinDot [s] = s"
| "joinDot (s # t # ss) = s @ CHR ''.'' # joinDot (t # ss)"

text \<open>\<^verbatim>\<open>Array.prototype.find\<close> is \<^const>\<open>find\<close>; \<^verbatim>\<open>undefined\<close> is \<open>None\<close>.\<close>

definition getFieldValue :: "form_state \<Rightarrow> string \<Rightarrow> field option" where
  "getFieldValue st n =
     (case find (\<lambda>f. name (props f) = n) (formFieldsRef st) of
        Some found \<Rightarrow> Some found
      | None \<Rightarrow>
          (let normalizedName = joinDot (stringToPath n)
           in find (\<lambda>f. normalizedDotName f = normalizedName) (formFieldsRef st)))"

section \<open>Projection of a value into the result object\<close>

text \<open>
  Modelled from the spec: \<^verbatim>\<open>fillPath\<close> of \<^verbatim>\<open>../utils\<close> is not among the sources. The spec
  says that a passing field's value is projected into the result at the field's path, that
  nested path segments are intermediate objects created on demand, and that the fields
  \<^verbatim>\<open>list[0]\<close>, \<^verbatim>\<open>list[1]\<close> give an array: an intermediate container is an array when the
  segment that follows is a decimal index, and an object otherwise. Writing an array beyond
  its end leaves holes, which read as \<^verbatim>\<open>undefined\<close>.
\<close>

definition digit_of :: "char \<Rightarrow> nat option" where
  "digit_of c =
     map_of [(CHR ''0'', 0), (CHR ''1'', 1), (CHR ''2'', 2), (CHR ''3'', 3), (CHR ''4'', 4),
             (CHR ''5'', 5), (CHR ''6'', 6), (CHR ''7'', 7), (CHR ''8'', 8), (CHR ''9'', 9)] c"

fun index_acc :: "nat \<Rightarrow> string \<Rightarrow> nat option" where
  "index_acc n [] = Some n"
| "index_acc n (c # cs) =
     (case digit_of c of None \<Rightarrow> None | Some d \<Rightarrow> index_acc (10 * n + d) cs)"

definition index_of :: "string \<Rightarrow> nat option" where
  "index_of key = (if key = [] then None else index_acc 0 key)"

fun assoc_set :: "string \<Rightarrow> jsval \<Rightarrow> (string \<times> jsval) list \<Rightarrow> (string \<times> jsval) list" where
  "assoc_set k v [] = [(k, v)]"
| "assoc_set k v ((k', v') # kvs) =
     (if k' = k then (k, v) # kvs else (k', v') # assoc_set k v kvs)"

text \<open>\<^verbatim>\<open>current[key]\<close>\<close>

fun get_prop :: "jsval \<Rightarrow> string \<Rightarrow> jsval" where
  "get_prop (JObj kvs) key = (case map_of kvs key of None \<Rightarrow> JUndefined | Some v \<Rightarrow> v)"
| "get_prop (JArr xs) key =
     (case index_of key of
        None \<Rightarrow> JUndefined
      | Some i \<Rightarrow> (if i < length xs then xs ! i else JUndefined))"
| "get_prop v key = JUndefined"

text \<open>\<^verbatim>\<open>current[key] = v\<close>; the result is the container after the write.\<close>

fun set_prop :: "jsval \<Rightarrow> string \<Rightarrow> jsval \<Rightarrow> jsval" where
  "set_prop (JObj kvs) key v = JObj (assoc_set key v kvs)"
| "set_prop (JArr xs) key v =
     (case index_of key of
        None \<Rightarrow> JArr xs
      | Some i \<Rightarrow>
          (if i < length xs then JArr (xs[i := v])
           else JArr (xs @ replicate (i - length xs) JUndefined @ [v])))"
| "set_prop c key v = c"

fun fill_at :: "jsval \<Rightarrow> string list \<Rightarrow> jsval \<Rightarrow> jsval" where
  "fill_at current [] v = current"
| "fill_at current [key] v = set_prop current key v"
| "fill_at current (key # nextKey # rest) v =
     (let child = get_prop current key;
          child' = (if truthy child then child
                    else if index_of nextKey \<noteq> None then JArr [] else JObj [])
      in set_prop current key (fill_at child' (nextKey # rest) v))"

definition fillPath :: "jsval \<Rightarrow> string \<Rightarrow> jsval \<Rightarrow> jsval" where
  "fillPath obj path v = fill_at obj (stringToPath path) v"

section \<open>Submission\<close>

text \<open>
  Modelled from the spec: \<^verbatim>\<open>validate\<close> and \<^verbatim>\<open>getValidationError\<close> of \<^verbatim>\<open>../utils\<close> are not
  among the sources. \<^verbatim>\<open>validate\<close> runs the validator on the value and the form, and throws
  what the validator throws; \<^verbatim>\<open>getValidationError\<close> turns a schema error into its list of
  messages and a plain string into the list holding it.
\<close>

definition validate :: "jsval \<Rightarrow> form_handle \<Rightarrow> validator \<Rightarrow> validation_error option" where
  "validate v form validator = validator v form"

fun getValidationError :: "validation_error \<Rightarrow> string list" where
  "getValidationError (ZodError messages) = messages"
| "getValidationError (StringError s) = [s]"

text \<open>\<^verbatim>\<open>formField.props[type]\<close>\<close>

fun validatorOf :: "validation_type \<Rightarrow> field_props \<Rightarrow> validator option" where
  "validatorOf OnChangeValidate p = onChangeValidate p"
| "validatorOf OnBlurValidate p = onBlurValidate p"
| "validatorOf OnSubmitValidate p = onSubmitValidate p"

text \<open>
  What can be observed of a submission from outside: each call of a validator, with the
  field's name, the phase and the form object handed over, and each call of the
  \<^verbatim>\<open>onSubmit\<close> property, with its two arguments.
\<close>

datatype event =
    ValidatorCalled string validation_type form_handle
  | OnSubmitCalled jsval form_handle

text \<open>The result, the field as the call leaves it, and the calls made.\<close>

definition runValidationType :: "field \<Rightarrow> validation_type \<Rightarrow> bool \<times> field \<times> event list" where
  "runValidationType formField type =
     (case validatorOf type (props formField) of
        None \<Rightarrow> (True, formField, [])
      | Some validator \<Rightarrow>
          (case validate (fieldValue formField) BaseValue validator of
             None \<Rightarrow> (True, formField, [ValidatorCalled (name (props formField)) type BaseValue])
           | Some error \<Rightarrow>
               (False, setErrors (getValidationError error) formField,
                [ValidatorCalled (name (props formField)) type BaseValue])))"

text \<open>
  The body of the function mapped over the registry, up to its call of \<^verbatim>\<open>fillPath\<close>: the
  boolean it resolves to says whether that call is made.
\<close>

definition validateField :: "field \<Rightarrow> bool \<times> field \<times> event list" where
  "validateField formField =
     (case runValidationType formField OnChangeValidate of (onChangeRes, f1, l1) \<Rightarrow>
        if \<not> onChangeRes then (False, f1, l1)
        else (case runValidationType f1 OnBlurValidate of (onBlurRes, f2, l2) \<Rightarrow>
          if \<not> onBlurRes then (False, f2, l1 @ l2)
          else (case runValidationType f2 OnSubmitValidate of (onSubmitRes, f3, l3) \<Rightarrow>
            if \<not> onSubmitRes then (False, f3, l1 @ l2 @ l3)
            else if length (errors f3) > 0 then (False, f3, l1 @ l2 @ l3)
            else (True, f3, l1 @ l2 @ l3))))"

text \<open>
  \<^verbatim>\<open>FormProps\<close>, as far as \<^verbatim>\<open>submit\<close> reads it. The \<^verbatim>\<open>onSubmit\<close> property returns normally
  (\<open>None\<close>) or throws a value.
\<close>

record form_props =
  onSubmit :: "(jsval \<Rightarrow> form_handle \<Rightarrow> jsval option) option"
  submitWhenInvalid :: bool

datatype 'a promise = Resolved 'a | Rejected jsval

text \<open>
  The chains of the fields run concurrently. \<^verbatim>\<open>Promise.all\<close> keeps the registry's order
  for \<^verbatim>\<open>validArrays\<close>, while the calls of \<^verbatim>\<open>fillPath\<close> on the shared \<^verbatim>\<open>values\<close> object
  happen in the order in which the chains complete: \<open>completion\<close> lists the indices of the
  fields in that order. The calls of the validators are logged field by field.
\<close>

definition filledValues :: "field list \<Rightarrow> bool list \<Rightarrow> nat list \<Rightarrow> jsval" where
  "filledValues fs validArrays completion =
     foldl (\<lambda>values i.
              if validArrays ! i
              then fillPath values (name (props (fs ! i))) (fieldValue (fs ! i))
              else values)
       (JObj []) completion"

definition submit ::
  "form_props \<Rightarrow> nat list \<Rightarrow> form_state \<Rightarrow> bool promise \<times> form_state \<times> event list" where
  "submit p completion st =
     (let st1 = st\<lparr>isSubmitted := True\<rparr>;
          results = map validateField (formFieldsRef st1);
          validArrays = map fst results;
          st2 = st1\<lparr>formFieldsRef := map (\<lambda>r. fst (snd r)) results\<rparr>;
          values = filledValues (formFieldsRef st2) validArrays completion;
          calls = concat (map (\<lambda>r. snd (snd r)) results)
      in if \<not> submitWhenInvalid p \<and> \<not> list_all (\<lambda>isValid. isValid) validArrays
         then (Resolved False, st2, calls)
         else (case onSubmit p of
                 None \<Rightarrow> (Resolved True, st2, calls)
               | Some callback \<Rightarrow>
                   (case callback values BaseValue of
                      None \<Rightarrow> (Resolved True, st2, calls @ [OnSubmitCalled values BaseValue])
                    | Some e \<Rightarrow> (Rejected e, st2, calls @ [OnSubmitCalled values BaseValue]))))"

text \<open>
  The \<^verbatim>\<open>submit\<close> member of each of the two form objects: \<^verbatim>\<open>baseValue\<close> holds
  \<^verbatim>\<open>() => Promise.resolve(true)\<close>, the published object holds the operation above.
\<close>

fun handle_submit ::
  "form_handle \<Rightarrow> form_props \<Rightarrow> nat list \<Rightarrow> form_state
     \<Rightarrow> bool promise \<times> form_state \<times> event list" where
  "handle_submit BaseValue p completion st = (Resolved True, st, [])"
| "handle_submit PublicValue p completion st = submit p completion st"

section \<open>Reading the record of a submission\<close>

fun handle_of :: "event \<Rightarrow> form_handle" where
  "handle_of (ValidatorCalled n t h) = h"
| "handle_of (OnSubmitCalled v h) = h"

fun isValidatorCall :: "event \<Rightarrow> bool" where
  "isValidatorCall (ValidatorCalled n t h) = True"
| "isValidatorCall (OnSubmitCalled v h) = False"

text \<open>The phases whose validator was called, in the order of the calls.\<close>

fun phasesCalled :: "event list \<Rightarrow> validation_type list" where
  "phasesCalled [] = []"
| "phasesCalled (ValidatorCalled n t h # es) = t # phasesCalled es"
| "phasesCalled (OnSubmitCalled v h # es) = phasesCalled es"

text \<open>The arguments of the calls of the \<^verbatim>\<open>onSubmit\<close> property.\<close>

fun onSubmitCalls :: "event list \<Rightarrow> (jsval \<times> form_handle) list" where
  "onSubmitCalls [] = []"
| "onSubmitCalls (ValidatorCalled n t h # es) = onSubmitCalls es"
| "onSubmitCalls (OnSubmitCalled v h # es) = (v, h) # onSubmitCalls es"

text \<open>A field's validator of a phase is declared, and what it answers on the field's value.\<close>

definition declared :: "field \<Rightarrow> validation_type \<Rightarrow> bool" where
  "declared f t = (validatorOf t (props f) \<noteq> None)"

definition thrownBy :: "field \<Rightarrow> validation_type \<Rightarrow> validation_error option" where
  "thrownBy f t =
     (case validatorOf t (props f) of
        None \<Rightarrow> None
      | Some validator \<Rightarrow> validate (fieldValue f) BaseValue validator)"

text \<open>
  A sequence of phases run in order and cut after the first one whose validator throws.
\<close>

fun untilFirstFailure :: "field \<Rightarrow> validation_type list \<Rightarrow> validation_type list" where
  "untilFirstFailure f [] = []"
| "untilFirstFailure f (t # ts) =
     (if thrownBy f t = None then t # untilFirstFailure f ts else [t])"

text \<open>
  The object built from a sequence of fields by projecting each one's value at its name,
  and the fields that passed, in the order in which their chains completed.
\<close>

definition projection :: "field list \<Rightarrow> jsval" where
  "projection fs =
     foldl (\<lambda>values f. fillPath values (name (props f)) (fieldValue f)) (JObj []) fs"

definition passingFields :: "field list \<Rightarrow> nat list \<Rightarrow> field list" where
  "passingFields fs completion =
     map (\<lambda>i. fs ! i) (filter (\<lambda>i. fst (validateField (fs ! i))) completion)"

text \<open>
  Two result objects are the same structured value when they hold the same entries, in
  whatever order their top-level keys were inserted.
\<close>

fun sameObject :: "jsval \<Rightarrow> jsval \<Rightarrow> bool" where
  "sameObject (JObj kvs) (JObj kvs') =
     (distinct (map fst kvs) \<and> distinct (map fst kvs') \<and> set kvs = set kvs')"
| "sameObject v v' = (v = v')"

section \<open>Example inputs\<close>

definition plainProps :: "string \<Rightarrow> field_props" where
  "plainProps n =
     \<lparr>name = n, resetWithValue = JUndefined, initialValue = JUndefined,
      onChangeValidate = None, onBlurValidate = None, onSubmitValidate = None\<rparr>"

definition plainField :: "string \<Rightarrow> string \<Rightarrow> jsval \<Rightarrow> field" where
  "plainField n normalized v =
     \<lparr>props = plainProps n, normalizedDotName = normalized, fieldValue = v,
      errors = [], isDirty = False, isTouched = False\<rparr>"

text \<open>A number field declared to reset to zero, and a checkbox declared unchecked.\<close>

definition zeroField :: field where
  "zeroField =
     (plainField ''count'' ''count'' (JNum 5))
       \<lparr>props := (plainProps ''count'')\<lparr>resetWithValue := JNum 0\<rparr>\<rparr>"

definition uncheckedField :: field where
  "uncheckedField =
     (plainField ''agree'' ''agree'' (JBool True))
       \<lparr>props := (plainProps ''agree'')\<lparr>initialValue := JBool False\<rparr>\<rparr>"

text \<open>A validator that always throws, a required field that uses it, and two forms.\<close>

definition alwaysFails :: validator where
  "alwaysFails v form = Some (StringError ''Required'')"

definition alwaysPasses :: validator where
  "alwaysPasses v form = None"

definition requiredField :: field where
  "requiredField =
     (plainField ''email'' ''email'' (JStr []))
       \<lparr>props := (plainProps ''email'')
          \<lparr>onChangeValidate := Some alwaysFails,
           onBlurValidate := Some alwaysPasses,
           onSubmitValidate := Some alwaysPasses\<rparr>\<rparr>"

definition checkedField :: field where
  "checkedField =
     (plainField ''a'' ''a'' (JStr ''x''))
       \<lparr>props := (plainProps ''a'')\<lparr>onSubmitValidate := Some alwaysPasses\<rparr>\<rparr>"

definition strictForm :: form_props where
  "strictForm = \<lparr>onSubmit = Some (\<lambda>values form. None), submitWhenInvalid = False\<rparr>"

definition lenientForm :: form_props where
  "lenientForm = \<lparr>onSubmit = Some (\<lambda>values form. None), submitWhenInvalid = True\<rparr>"


section \<open>Aggregation\<close>

lemma getValidBoolean_iff:
  "getValidBoolean st = (\<forall>f \<in> set (formFieldsRef st). errors f = [])"
  by (simp add: getValidBoolean_def list_all_iff)

text \<open>
  C1. For every registry, the \<open>isValid\<close> aggregate is true exactly when every field of
  the registry has an empty error list; on a slot not yet computed the getter returns this
  aggregate; and on the empty registry it is true.
\<close>

theorem isValid_aggregation:
  "getValidBoolean st = (\<forall>f \<in> set (formFieldsRef st). errors f = [])
   \<and> (cached_isValid st = None \<longrightarrow>
        fst (isValidGetter st) = (\<forall>f \<in> set (formFieldsRef st). errors f = []))
   \<and> (formFieldsRef st = [] \<longrightarrow> getValidBoolean st)
   \<and> fst (isValidGetter (initial_state [])) = True"
proof -
  have agg: "getValidBoolean st = (\<forall>f \<in> set (formFieldsRef st). errors f = [])"
    by (rule getValidBoolean_iff)
  have getter: "cached_isValid st = None \<longrightarrow>
        fst (isValidGetter st) = (\<forall>f \<in> set (formFieldsRef st). errors f = [])"
    by (simp add: isValidGetter_def getValidBoolean_def list_all_iff Let_def)
  have empty: "formFieldsRef st = [] \<longrightarrow> getValidBoolean st"
    by (simp add: getValidBoolean_def)
  have init: "fst (isValidGetter (initial_state [])) = True"
    by (simp add: isValidGetter_def getValidBoolean_def initial_state_def Let_def)
  from agg getter empty init show ?thesis by blast
qed

theorem isValid_aggregation_witness:
  "cached_isValid (initial_state [plainField ''a'' ''a'' (JStr ''x'')]) = None
   \<and> fst (isValidGetter (initial_state [plainField ''a'' ''a'' (JStr ''x'')]))
   \<and> \<not> getValidBoolean
         (initial_state [setErrors [''Required''] (plainField ''a'' ''a'' (JStr ''x''))])
   \<and> formFieldsRef (initial_state []) = [] \<and> getValidBoolean (initial_state [])"
  using isValid_aggregation [of "initial_state [plainField ''a'' ''a'' (JStr ''x'')]"]
    isValid_aggregation
      [of "initial_state [setErrors [''Required''] (plainField ''a'' ''a'' (JStr ''x''))]"]
    isValid_aggregation [of "initial_state []"]
  by (simp add: initial_state_def plainField_def setErrors_def)

section \<open>Laziness of the derived state\<close>

lemma recomputeErrors_unarmed:
  "\<not> shouldRerenderErrorOnRecompute st \<Longrightarrow> \<not> shouldRerenderIsValidOnRecompute st
     \<Longrightarrow> recomputeErrors st = st"
  by (simp add: recomputeErrors_def)

lemma recomputeIsDirty_unarmed:
  "\<not> shouldRerenderIsDirtyOnRecompute st \<Longrightarrow> recomputeIsDirty st = st"
  by (simp add: recomputeIsDirty_def)

lemma recomputeIsTouched_unarmed:
  "\<not> shouldRerenderIsTouchedOnRecompute st \<Longrightarrow> recomputeIsTouched st = st"
  by (simp add: recomputeIsTouched_def)

lemma recomputeErrors_armed:
  "shouldRerenderErrorOnRecompute st \<Longrightarrow>
     cached_errors (recomputeErrors st) = Some (getErrors st)"
  "shouldRerenderIsValidOnRecompute st \<Longrightarrow>
     cached_isValid (recomputeErrors st) = Some (getValidBoolean st)"
  by (simp_all add: recomputeErrors_def getValidBoolean_def Let_def)

lemma recomputeIsDirty_armed:
  "shouldRerenderIsDirtyOnRecompute st \<Longrightarrow>
     cached_isDirty (recomputeIsDirty st) = Some (getFieldBoolean isDirty st)"
  by (simp add: recomputeIsDirty_def)

lemma recomputeIsTouched_armed:
  "shouldRerenderIsTouchedOnRecompute st \<Longrightarrow>
     cached_isTouched (recomputeIsTouched st) = Some (getFieldBoolean isTouched st)"
  by (simp add: recomputeIsTouched_def)

lemma errorGetter_arms: "shouldRerenderErrorOnRecompute (snd (errorGetter st))"
  by (simp add: errorGetter_def Let_def split: option.splits)

lemma isValidGetter_arms: "shouldRerenderIsValidOnRecompute (snd (isValidGetter st))"
  by (simp add: isValidGetter_def Let_def split: option.splits)

lemma isDirtyGetter_arms_uncomputed:
  "cached_isDirty st = None \<Longrightarrow> shouldRerenderIsDirtyOnRecompute (snd (isDirtyGetter st))"
  by (simp add: isDirtyGetter_def Let_def)

lemma isTouchedGetter_arms_uncomputed:
  "cached_isTouched st = None \<Longrightarrow> shouldRerenderIsTouchedOnRecompute (snd (isTouchedGetter st))"
  by (simp add: isTouchedGetter_def Let_def)

lemma isDirtyGetter_computed:
  "cached_isDirty st = Some v \<Longrightarrow> isDirtyGetter st = (v, st)"
  by (simp add: isDirtyGetter_def)

lemma isTouchedGetter_computed:
  "cached_isTouched st = Some v \<Longrightarrow> isTouchedGetter st = (v, st)"
  by (simp add: isTouchedGetter_def)

text \<open>
  C4. Each of the four slots is armed by the first call of its getter, and an armed slot
  is refreshed by every call of its recompute entry point. On this input the code does
  otherwise for \<open>isDirty\<close>: on a freshly mounted form with one field, \<open>reset\<close> is called
  and then \<open>isDirty\<close> is read for the first time. The read returns \<open>False\<close> and leaves
  the slot unarmed; when the field then becomes dirty, \<open>recomputeIsDirty\<close> changes
  nothing, and the getter still answers \<open>False\<close> while a field is dirty. The \<open>errors\<close>
  getter, called in the same state, does arm its slot.
\<close>

theorem isDirty_stays_unarmed_after_reset:
  "(let st0 = initial_state [plainField ''a'' ''a'' (JStr [])];
        st2 = snd (isDirtyGetter (reset st0));
        st3 = recomputeIsDirty (setIsDirty True st2)
    in fst (isDirtyGetter (reset st0)) = False
       \<and> \<not> shouldRerenderIsDirtyOnRecompute st2
       \<and> st3 = setIsDirty True st2
       \<and> getFieldBoolean isDirty st3
       \<and> fst (isDirtyGetter st3) = False
       \<and> shouldRerenderErrorOnRecompute (snd (errorGetter (reset st0))))"
  by (simp add: Let_def initial_state_def reset_def isDirtyGetter_def recomputeIsDirty_def
      setIsDirty_def getFieldBoolean_def errorGetter_def plainField_def field_setIsDirty_def)

section \<open>Reset\<close>

lemma reset_field_value:
  "reset_field f = f\<lparr>fieldValue :=
      (if truthy (resetWithValue (props f)) then resetWithValue (props f)
       else if truthy (initialValue (props f)) then initialValue (props f)
       else if isArray (fieldValue f) then JArr [] else JStr [])\<rparr>"
  by (simp add: reset_field_def js_or_def setValue_def setValues_def Let_def)

text \<open>
  C7, as stated, at a concrete input: a number field declares the reset value \<open>0\<close>, and
  a checkbox declares the initial value \<open>false\<close>; \<open>reset\<close> sets both to the empty
  string and not to the declared value.
\<close>

theorem reset_declared_zero_counterexample:
  "resetWithValue (props (zeroField)) = JNum 0
   \<and> map fieldValue (formFieldsRef (reset (initial_state [zeroField]))) = [JStr []]
   \<and> initialValue (props uncheckedField) = JBool False
   \<and> map fieldValue (formFieldsRef (reset (initial_state [uncheckedField]))) = [JStr []]"
  by (simp add: reset_def reset_field_def initial_state_def zeroField_def uncheckedField_def
      plainField_def plainProps_def js_or_def setValue_def)

text \<open>
  C7, amended. \<open>reset\<close> sets the value of every field to its \<open>resetWithValue\<close> when
  that is truthy, otherwise to its \<open>initialValue\<close> when that is truthy, and otherwise
  (both absent or falsy) to the empty list when the current value is an array and to the
  empty string when it is not; nothing else of a field changes. It then sets the dirty and
  the touched cache to \<open>False\<close> and the error cache to its uncomputed state. On the empty
  registry it leaves the registry empty. Its only result is the new state.
\<close>

theorem reset_sets_values:
  "formFieldsRef (reset st) =
     map (\<lambda>f. f\<lparr>fieldValue :=
                 (if truthy (resetWithValue (props f)) then resetWithValue (props f)
                  else if truthy (initialValue (props f)) then initialValue (props f)
                  else if isArray (fieldValue f) then JArr [] else JStr [])\<rparr>)
       (formFieldsRef st)
   \<and> cached_isDirty (reset st) = Some False
   \<and> cached_isTouched (reset st) = Some False
   \<and> cached_errors (reset st) = None
   \<and> (formFieldsRef st = [] \<longrightarrow> formFieldsRef (reset st) = [])"
  by (simp add: reset_def reset_field_value)

theorem reset_sets_values_witness:
  "formFieldsRef (initial_state []) = []
   \<and> formFieldsRef (reset (initial_state [])) = []
   \<and> map fieldValue
        (formFieldsRef (reset (initial_state
           [plainField ''tags'' ''tags'' (JArr [JStr ''x'']), plainField ''a'' ''a'' (JNum 1)])))
       = [JArr [], JStr []]"
  using reset_sets_values [of "initial_state []"]
    reset_sets_values [of "initial_state
           [plainField ''tags'' ''tags'' (JArr [JStr ''x'']), plainField ''a'' ''a'' (JNum 1)]"]
  by (simp add: initial_state_def plainField_def plainProps_def)

text \<open>
  C9. \<open>reset\<close> leaves the \<open>isValid\<close> cache and its armed flag as they are, while it
  clears the error cache and sets the dirty and touched caches to \<open>False\<close>; so when the
  \<open>isValid\<close> cache holds a value before \<open>reset\<close>, the getter called after \<open>reset\<close>
  returns that value, and the cache still holds it.
\<close>

theorem reset_keeps_isValid:
  "cached_isValid (reset st) = cached_isValid st
   \<and> shouldRerenderIsValidOnRecompute (reset st) = shouldRerenderIsValidOnRecompute st
   \<and> cached_errors (reset st) = None
   \<and> cached_isDirty (reset st) = Some False
   \<and> cached_isTouched (reset st) = Some False
   \<and> (cached_isValid st = Some b \<longrightarrow>
        fst (isValidGetter (reset st)) = b
        \<and> cached_isValid (snd (isValidGetter (reset st))) = Some b)"
  by (simp add: reset_def isValidGetter_def Let_def)

theorem reset_keeps_isValid_witness:
  "cached_isValid
     (snd (isValidGetter (initial_state [setErrors [''Required''] (plainField ''a'' ''a'' JNull)])))
     = Some False
   \<and> fst (isValidGetter (reset
       (snd (isValidGetter (initial_state [setErrors [''Required''] (plainField ''a'' ''a'' JNull)])))))
     = False"
  using reset_keeps_isValid
    [of "snd (isValidGetter (initial_state [setErrors [''Required''] (plainField ''a'' ''a'' JNull)]))"
        False]
  by (simp add: isValidGetter_def initial_state_def getValidBoolean_def Let_def setErrors_def
      plainField_def)

section \<open>Name lookup\<close>

lemma find_unique:
  assumes "f \<in> set fs" and "\<And>g. g \<in> set fs \<Longrightarrow> P g \<Longrightarrow> g = f" and "P f"
  shows "find P fs = Some f"
proof (cases "find P fs")
  case None
  with assms show ?thesis by (auto simp: find_None_iff)
next
  case (Some g)
  then have "g \<in> set fs" "P g" by (auto simp: find_Some_iff)
  with assms Some show ?thesis by auto
qed

text \<open>
  C8, as stated, at a concrete input: the registry holds a field named \<^verbatim>\<open>list[0]\<close> and a
  field named \<^verbatim>\<open>list.0\<close>. Both names normalize to \<^verbatim>\<open>list.0\<close>. The first field is found
  under its literal name, but the equivalent path \<^verbatim>\<open>list.0\<close> resolves to the second field.
\<close>

theorem getFieldValue_shadowed_counterexample:
  "plainField ''list[0]'' ''list.0'' (JNum 1)
     \<in> set (formFieldsRef (initial_state
          [plainField ''list[0]'' ''list.0'' (JNum 1), plainField ''list.0'' ''list.0'' (JNum 2)]))
   \<and> joinDot (stringToPath ''list[0]'') = ''list.0''
   \<and> joinDot (stringToPath ''list.0'') = ''list.0''
   \<and> getFieldValue (initial_state
          [plainField ''list[0]'' ''list.0'' (JNum 1), plainField ''list.0'' ''list.0'' (JNum 2)])
        ''list[0]'' = Some (plainField ''list[0]'' ''list.0'' (JNum 1))
   \<and> getFieldValue (initial_state
          [plainField ''list[0]'' ''list.0'' (JNum 1), plainField ''list.0'' ''list.0'' (JNum 2)])
        ''list.0'' = Some (plainField ''list.0'' ''list.0'' (JNum 2))
   \<and> plainField ''list.0'' ''list.0'' (JNum 2) \<noteq> plainField ''list[0]'' ''list.0'' (JNum 1)"
  by (simp add: getFieldValue_def initial_state_def plainField_def plainProps_def
      stringToPath_def Let_def)

text \<open>
  C8, amended. Let every handle's precomputed normalized name be the normalized form of
  its literal name, and let \<open>f\<close> be a registered field that is the only one with its
  normalized name. Then \<open>getFieldValue\<close> returns \<open>f\<close> for the literal name of \<open>f\<close>
  and for every path that normalizes to the normalized name of \<open>f\<close>. For every query,
  the lookup returns \<open>undefined\<close> exactly when no handle has the query as its literal name
  and no handle has the query's normalized form as its normalized name.
\<close>

theorem getFieldValue_resolves:
  assumes reg: "f \<in> set (formFieldsRef st)"
    and consistent: "\<forall>g \<in> set (formFieldsRef st).
          normalizedDotName g = joinDot (stringToPath (name (props g)))"
    and unique: "\<forall>g \<in> set (formFieldsRef st). normalizedDotName g = normalizedDotName f \<longrightarrow> g = f"
    and equiv: "joinDot (stringToPath q) = normalizedDotName f"
  shows "getFieldValue st (name (props f)) = Some f
     \<and> getFieldValue st q = Some f
     \<and> (getFieldValue st n = None \<longleftrightarrow>
          (\<forall>g \<in> set (formFieldsRef st).
             name (props g) \<noteq> n \<and> normalizedDotName g \<noteq> joinDot (stringToPath n)))"
proof -
  have lit: "find (\<lambda>g. name (props g) = name (props f)) (formFieldsRef st) = Some f"
    using reg consistent unique by (intro find_unique) auto
  have a: "getFieldValue st (name (props f)) = Some f"
    by (simp add: getFieldValue_def lit)
  have b: "getFieldValue st q = Some f"
  proof (cases "find (\<lambda>g. name (props g) = q) (formFieldsRef st)")
    case None
    have "find (\<lambda>g. normalizedDotName g = joinDot (stringToPath q)) (formFieldsRef st) = Some f"
      using reg unique equiv by (intro find_unique) auto
    with None show ?thesis by (simp add: getFieldValue_def)
  next
    case (Some g)
    then have "g \<in> set (formFieldsRef st)" "name (props g) = q" by (auto simp: find_Some_iff)
    with consistent unique equiv have "g = f" by auto
    with Some show ?thesis by (simp add: getFieldValue_def)
  qed
  have c: "getFieldValue st n = None \<longleftrightarrow>
          (\<forall>g \<in> set (formFieldsRef st).
             name (props g) \<noteq> n \<and> normalizedDotName g \<noteq> joinDot (stringToPath n))"
  proof (cases "find (\<lambda>g. name (props g) = n) (formFieldsRef st)")
    case None
    then have "getFieldValue st n =
        find (\<lambda>g. normalizedDotName g = joinDot (stringToPath n)) (formFieldsRef st)"
      by (simp add: getFieldValue_def)
    moreover have "\<forall>g \<in> set (formFieldsRef st). name (props g) \<noteq> n"
      using None by (simp add: find_None_iff)
    ultimately show ?thesis by (auto simp: find_None_iff)
  next
    case (Some g)
    then have "g \<in> set (formFieldsRef st)" "name (props g) = n"
      by (auto simp: find_Some_iff)
    with Some show ?thesis by (auto simp: getFieldValue_def)
  qed
  from a b c show ?thesis by blast
qed

theorem getFieldValue_resolves_witness:
  "getFieldValue
     (initial_state [plainField ''a'' ''a'' JNull, plainField ''list[0]'' ''list.0'' (JNum 1)])
     ''list[0]'' = Some (plainField ''list[0]'' ''list.0'' (JNum 1))
   \<and> getFieldValue
     (initial_state [plainField ''a'' ''a'' JNull, plainField ''list[0]'' ''list.0'' (JNum 1)])
     ''list.0'' = Some (plainField ''list[0]'' ''list.0'' (JNum 1))
   \<and> getFieldValue
     (initial_state [plainField ''a'' ''a'' JNull, plainField ''list[0]'' ''list.0'' (JNum 1)])
     ''b'' = None"
proof -
  let ?f = "plainField ''list[0]'' ''list.0'' (JNum 1)"
  let ?st = "initial_state [plainField ''a'' ''a'' JNull, ?f]"
  have reg: "?f \<in> set (formFieldsRef ?st)"
    by (simp add: initial_state_def)
  have consistent: "\<forall>g \<in> set (formFieldsRef ?st).
      normalizedDotName g = joinDot (stringToPath (name (props g)))"
    by (simp add: initial_state_def plainField_def plainProps_def stringToPath_def)
  have unique: "\<forall>g \<in> set (formFieldsRef ?st).
      normalizedDotName g = normalizedDotName ?f \<longrightarrow> g = ?f"
    by (simp add: initial_state_def plainField_def)
  have equiv: "joinDot (stringToPath ''list.0'') = normalizedDotName ?f"
    by (simp add: plainField_def stringToPath_def)
  have lit: "name (props ?f) = ''list[0]''"
    by (simp add: plainField_def plainProps_def)
  have miss: "\<forall>g \<in> set (formFieldsRef ?st).
      name (props g) \<noteq> ''b'' \<and> normalizedDotName g \<noteq> joinDot (stringToPath ''b'')"
    by (simp add: initial_state_def plainField_def plainProps_def stringToPath_def)
  from getFieldValue_resolves [OF reg consistent unique equiv, of "''b''"] lit miss
  show ?thesis by simp
qed

section \<open>Validation of one field\<close>

lemma runValidationType_cases:
  "runValidationType f t =
     (case thrownBy f t of
        None \<Rightarrow> (True, f, if declared f t then [ValidatorCalled (name (props f)) t BaseValue] else [])
      | Some error \<Rightarrow> (False, setErrors (getValidationError error) f,
                       [ValidatorCalled (name (props f)) t BaseValue]))"
  by (simp add: runValidationType_def thrownBy_def declared_def split: option.splits)

lemma thrownBy_setErrors [simp]: "thrownBy (setErrors es f) t = thrownBy f t"
  by (simp add: thrownBy_def setErrors_def split: option.splits)

lemma declared_setErrors [simp]: "declared (setErrors es f) t = declared f t"
  by (simp add: declared_def setErrors_def)

lemma thrownBy_undeclared: "\<not> declared f t \<Longrightarrow> thrownBy f t = None"
  by (simp add: thrownBy_def declared_def)

lemma validateField_props [simp]: "props (fst (snd (validateField f))) = props f"
  by (simp add: validateField_def runValidationType_cases setErrors_def split: option.splits)

lemma validateField_value [simp]: "fieldValue (fst (snd (validateField f))) = fieldValue f"
  by (simp add: validateField_def runValidationType_cases setErrors_def split: option.splits)

lemma validateField_phases:
  "phasesCalled (snd (snd (validateField f))) =
     untilFirstFailure f
       (filter (declared f) [OnChangeValidate, OnBlurValidate, OnSubmitValidate])"
  by (auto simp: validateField_def runValidationType_cases thrownBy_undeclared
      split: option.splits)

lemma validateField_onChange_fails:
  "thrownBy f OnChangeValidate = Some error \<Longrightarrow>
     validateField f = (False, setErrors (getValidationError error) f,
        [ValidatorCalled (name (props f)) OnChangeValidate BaseValue])"
  by (simp add: validateField_def runValidationType_cases)

lemma validateField_only_validators:
  "filter isValidatorCall (snd (snd (validateField f))) = snd (snd (validateField f))"
  "onSubmitCalls (snd (snd (validateField f))) = []"
  "\<forall>e \<in> set (snd (snd (validateField f))). handle_of e = BaseValue"
  by (auto simp: validateField_def runValidationType_cases split: option.splits)

section \<open>Submission\<close>

lemma fill_fold:
  "set c \<subseteq> {..<length fs} \<Longrightarrow>
   foldl (\<lambda>values i.
            if map (\<lambda>f. fst (validateField f)) fs ! i
            then fillPath values
                   (name (props (map (\<lambda>f. fst (snd (validateField f))) fs ! i)))
                   (fieldValue (map (\<lambda>f. fst (snd (validateField f))) fs ! i))
            else values) acc c
   = foldl (\<lambda>values f. fillPath values (name (props f)) (fieldValue f)) acc
       (map (\<lambda>i. fs ! i) (filter (\<lambda>i. fst (validateField (fs ! i))) c))"
  by (induction c arbitrary: acc) simp_all

lemma filledValues_projection:
  "set c \<subseteq> {..<length fs} \<Longrightarrow>
   filledValues (map (\<lambda>f. fst (snd (validateField f))) fs) (map (\<lambda>f. fst (validateField f)) fs) c
     = projection (passingFields fs c)"
  unfolding filledValues_def projection_def passingFields_def by (rule fill_fold)

lemma submit_cases:
  "submit p c st =
     (let fs = formFieldsRef st;
          st2 = st\<lparr>isSubmitted := True,
                   formFieldsRef := map (\<lambda>f. fst (snd (validateField f))) fs\<rparr>;
          values = filledValues (map (\<lambda>f. fst (snd (validateField f))) fs)
                     (map (\<lambda>f. fst (validateField f)) fs) c;
          calls = concat (map (\<lambda>f. snd (snd (validateField f))) fs)
      in if \<not> submitWhenInvalid p \<and> (\<exists>f \<in> set fs. \<not> fst (validateField f))
         then (Resolved False, st2, calls)
         else (case onSubmit p of
                 None \<Rightarrow> (Resolved True, st2, calls)
               | Some callback \<Rightarrow>
                   (case callback values BaseValue of
                      None \<Rightarrow> (Resolved True, st2, calls @ [OnSubmitCalled values BaseValue])
                    | Some e \<Rightarrow> (Rejected e, st2, calls @ [OnSubmitCalled values BaseValue]))))"
  by (simp add: submit_def Let_def list_all_iff comp_def split: option.splits)

lemma onSubmitCalls_append [simp]: "onSubmitCalls (xs @ ys) = onSubmitCalls xs @ onSubmitCalls ys"
  by (induction xs rule: onSubmitCalls.induct) simp_all

lemma calls_filter:
  "filter isValidatorCall (concat (map (\<lambda>f. snd (snd (validateField f))) fs))
     = concat (map (\<lambda>f. snd (snd (validateField f))) fs)"
  by (induction fs) (simp_all add: validateField_only_validators)

lemma calls_no_onSubmit:
  "onSubmitCalls (concat (map (\<lambda>f. snd (snd (validateField f))) fs)) = []"
  by (induction fs) (simp_all add: validateField_only_validators)

lemma calls_handle:
  "e \<in> set (concat (map (\<lambda>f. snd (snd (validateField f))) fs)) \<Longrightarrow> handle_of e = BaseValue"
  using validateField_only_validators(3) by auto



text \<open>
  C3. During a submission the validators of a field are called in the order
  \<open>onChange\<close>, \<open>onBlur\<close>, \<open>onSubmit\<close>, skipping the phases with no declared
  validator and stopping after the first validator that throws; when the \<open>onChange\<close>
  validator throws, it is the only validator of the field that is called, and the field
  fails; a phase with no declared validator passes without any call. The validator calls
  of a submission are those of its fields.
\<close>

theorem validation_phase_order:
  "phasesCalled (snd (snd (validateField f)))
     = untilFirstFailure f
         (filter (declared f) [OnChangeValidate, OnBlurValidate, OnSubmitValidate])
   \<and> (onChangeValidate (props f) = Some validator
        \<and> validate (fieldValue f) BaseValue validator = Some error \<longrightarrow>
      \<not> fst (validateField f)
      \<and> snd (snd (validateField f))
          = [ValidatorCalled (name (props f)) OnChangeValidate BaseValue])
   \<and> (validatorOf t (props f) = None \<longrightarrow> runValidationType f t = (True, f, []))
   \<and> filter isValidatorCall (snd (snd (submit p completion st)))
       = concat (map (\<lambda>f. snd (snd (validateField f))) (formFieldsRef st))"
proof -
  have order: "phasesCalled (snd (snd (validateField f)))
     = untilFirstFailure f
         (filter (declared f) [OnChangeValidate, OnBlurValidate, OnSubmitValidate])"
    by (rule validateField_phases)
  have short: "onChangeValidate (props f) = Some validator
        \<and> validate (fieldValue f) BaseValue validator = Some error \<longrightarrow>
      \<not> fst (validateField f)
      \<and> snd (snd (validateField f))
          = [ValidatorCalled (name (props f)) OnChangeValidate BaseValue]"
  proof
    assume "onChangeValidate (props f) = Some validator
        \<and> validate (fieldValue f) BaseValue validator = Some error"
    then have "thrownBy f OnChangeValidate = Some error"
      by (simp add: thrownBy_def)
    then show "\<not> fst (validateField f)
      \<and> snd (snd (validateField f))
          = [ValidatorCalled (name (props f)) OnChangeValidate BaseValue]"
      by (simp add: validateField_onChange_fails)
  qed
  have absent: "validatorOf t (props f) = None \<longrightarrow> runValidationType f t = (True, f, [])"
    by (simp add: runValidationType_def)
  have log: "filter isValidatorCall (snd (snd (submit p completion st)))
       = concat (map (\<lambda>f. snd (snd (validateField f))) (formFieldsRef st))"
    by (simp add: submit_cases Let_def calls_filter split: option.splits)
  from order short absent log show ?thesis by blast
qed

theorem validation_phase_order_witness:
  "\<not> fst (validateField requiredField)
   \<and> snd (snd (validateField requiredField))
       = [ValidatorCalled ''email'' OnChangeValidate BaseValue]
   \<and> runValidationType checkedField OnBlurValidate = (True, checkedField, [])
   \<and> phasesCalled (snd (snd (validateField checkedField))) = [OnSubmitValidate]"
  using validation_phase_order
      [where f = requiredField and validator = alwaysFails
         and error = "StringError ''Required''" and t = OnChangeValidate]
    validation_phase_order
      [where f = checkedField and validator = alwaysFails
         and error = "StringError ''Required''" and t = OnBlurValidate]
  by (simp add: requiredField_def checkedField_def plainField_def plainProps_def
      alwaysFails_def alwaysPasses_def validate_def declared_def thrownBy_def)

text \<open>
  C2. When \<open>submitWhenInvalid\<close> is false and the chain of at least one field ends
  failed, \<open>submit\<close> resolves \<open>false\<close> and the \<open>onSubmit\<close> property is not called.
  When \<open>submitWhenInvalid\<close> is true, an \<open>onSubmit\<close> property is given and it returns
  normally, it is called exactly once, with the object built from the values of the
  fields that passed and of no other field, and \<open>submit\<close> resolves \<open>true\<close>, whether
  or not some field failed. Every chain completes once, in any order.
\<close>

theorem submit_gating:
  "(\<not> submitWhenInvalid p \<and> (\<exists>f \<in> set (formFieldsRef st). \<not> fst (validateField f)) \<longrightarrow>
      fst (submit p completion st) = Resolved False
      \<and> onSubmitCalls (snd (snd (submit p completion st))) = [])
   \<and> (submitWhenInvalid p \<and> onSubmit p = Some callback
        \<and> distinct completion \<and> set completion = {..<length (formFieldsRef st)}
        \<and> callback (projection (passingFields (formFieldsRef st) completion)) BaseValue = None \<longrightarrow>
      fst (submit p completion st) = Resolved True
      \<and> onSubmitCalls (snd (snd (submit p completion st)))
          = [(projection (passingFields (formFieldsRef st) completion), BaseValue)])"
proof -
  have gate: "\<not> submitWhenInvalid p \<and> (\<exists>f \<in> set (formFieldsRef st). \<not> fst (validateField f)) \<longrightarrow>
      fst (submit p completion st) = Resolved False
      \<and> onSubmitCalls (snd (snd (submit p completion st))) = []"
    by (simp add: submit_cases Let_def calls_no_onSubmit)
  have pass: "submitWhenInvalid p \<and> onSubmit p = Some callback
        \<and> distinct completion \<and> set completion = {..<length (formFieldsRef st)}
        \<and> callback (projection (passingFields (formFieldsRef st) completion)) BaseValue = None \<longrightarrow>
      fst (submit p completion st) = Resolved True
      \<and> onSubmitCalls (snd (snd (submit p completion st)))
          = [(projection (passingFields (formFieldsRef st) completion), BaseValue)]"
  proof
    assume h: "submitWhenInvalid p \<and> onSubmit p = Some callback
        \<and> distinct completion \<and> set completion = {..<length (formFieldsRef st)}
        \<and> callback (projection (passingFields (formFieldsRef st) completion)) BaseValue = None"
    then have "set completion \<subseteq> {..<length (formFieldsRef st)}" by simp
    then have vals: "filledValues
        (map (\<lambda>f. fst (snd (validateField f))) (formFieldsRef st))
        (map (\<lambda>f. fst (validateField f)) (formFieldsRef st)) completion
        = projection (passingFields (formFieldsRef st) completion)"
      by (rule filledValues_projection)
    from h show "fst (submit p completion st) = Resolved True
      \<and> onSubmitCalls (snd (snd (submit p completion st)))
          = [(projection (passingFields (formFieldsRef st) completion), BaseValue)]"
      by (simp add: submit_cases Let_def vals calls_no_onSubmit comp_def)
  qed
  from gate pass show ?thesis by blast
qed

theorem submit_gating_witness:
  "fst (submit strictForm [1, 0] (initial_state [requiredField, checkedField])) = Resolved False
   \<and> onSubmitCalls (snd (snd (submit strictForm [1, 0]
         (initial_state [requiredField, checkedField])))) = []
   \<and> fst (submit lenientForm [1, 0] (initial_state [requiredField, checkedField]))
       = Resolved True
   \<and> onSubmitCalls (snd (snd (submit lenientForm [1, 0]
         (initial_state [requiredField, checkedField]))))
       = [(JObj [(''a'', JStr ''x'')], BaseValue)]"
proof -
  let ?st = "initial_state [requiredField, checkedField]"
  have failed: "\<not> fst (validateField requiredField)"
    by (simp add: validateField_def runValidationType_def requiredField_def plainField_def
        plainProps_def alwaysFails_def validate_def)
  have passed: "fst (validateField checkedField)"
    by (simp add: validateField_def runValidationType_def checkedField_def plainField_def
        plainProps_def alwaysPasses_def validate_def)
  have fields: "formFieldsRef ?st = [requiredField, checkedField]"
    by (simp add: initial_state_def)
  have order: "distinct [1, 0 :: nat] \<and> set [1, 0 :: nat] = {..<length (formFieldsRef ?st)}"
    by (auto simp: fields)
  have kept: "passingFields [requiredField, checkedField] [1, 0] = [checkedField]"
    by (simp add: passingFields_def failed passed)
  have built: "projection [checkedField] = JObj [(''a'', JStr ''x'')]"
    by (simp add: projection_def fillPath_def stringToPath_def checkedField_def plainField_def
        plainProps_def)
  have vals: "projection (passingFields (formFieldsRef ?st) [1, 0]) = JObj [(''a'', JStr ''x'')]"
    by (simp only: fields kept built)
  have strict: "\<not> submitWhenInvalid strictForm"
    and lenient: "submitWhenInvalid lenientForm"
    and cb: "onSubmit lenientForm = Some (\<lambda>values form. None)"
    by (simp_all add: strictForm_def lenientForm_def)
  from submit_gating [where p = strictForm and st = ?st and completion = "[1, 0]"]
    submit_gating [where p = lenientForm and st = ?st and completion = "[1, 0]"
        and callback = "\<lambda>values form. None"]
    failed fields order vals strict lenient cb
  show ?thesis by simp
qed

lemma submit_state:
  "fst (snd (submit p completion st)) =
     st\<lparr>isSubmitted := True,
        formFieldsRef := map (\<lambda>f. fst (snd (validateField f))) (formFieldsRef st)\<rparr>"
  by (simp add: submit_cases Let_def split: option.splits)






text \<open>
  The submission itself does not call \<open>recomputeErrors\<close>: an \<open>errors\<close> slot that was
  read before the submission keeps its earlier value until the next recompute.
\<close>

lemma errors_read_before_submit_is_kept:
  "cached_errors st = Some v \<Longrightarrow> fst (errorGetter (fst (snd (submit p completion st)))) = v"
  by (simp add: submit_state errorGetter_def Let_def)



text \<open>
  C10. The \<open>submit\<close> member of the internal base object resolves \<open>true\<close>, leaves the
  state as it is and calls neither a validator nor the \<open>onSubmit\<close> property; every
  validator call and every \<open>onSubmit\<close> call of a submission is handed that base object;
  the \<open>submit\<close> member of the published object is the real operation, and the two
  differ on a form with a failing field.
\<close>

theorem base_submit_is_stub:
  "handle_submit BaseValue p completion st = (Resolved True, st, [])
   \<and> (\<forall>e \<in> set (snd (snd (submit p completion st))). handle_of e = BaseValue)
   \<and> handle_submit PublicValue p completion st = submit p completion st
   \<and> handle_submit BaseValue strictForm [0] (initial_state [requiredField])
       \<noteq> handle_submit PublicValue strictForm [0] (initial_state [requiredField])"
proof -
  have stub: "handle_submit BaseValue p completion st = (Resolved True, st, [])" by simp
  have passed: "\<forall>e \<in> set (snd (snd (submit p completion st))). handle_of e = BaseValue"
    by (auto simp: submit_cases Let_def calls_handle split: option.splits)
  have real: "handle_submit PublicValue p completion st = submit p completion st" by simp
  have "fst (submit strictForm [0] (initial_state [requiredField])) = Resolved False"
    by (simp add: submit_cases Let_def strictForm_def initial_state_def requiredField_def
        validateField_def runValidationType_def validate_def alwaysFails_def plainField_def
        plainProps_def)
  then have differ: "handle_submit BaseValue strictForm [0] (initial_state [requiredField])
       \<noteq> handle_submit PublicValue strictForm [0] (initial_state [requiredField])"
    by (metis fst_conv handle_submit.simps promise.inject(1))
  from stub passed real differ show ?thesis by blast
qed

theorem base_submit_is_stub_witness:
  "map handle_of (snd (snd (submit lenientForm [1, 0]
       (initial_state [requiredField, checkedField]))))
     = [BaseValue, BaseValue, BaseValue]"
proof -
  have "length (snd (snd (submit lenientForm [1, 0]
       (initial_state [requiredField, checkedField])))) = 3"
    by (simp add: submit_cases Let_def lenientForm_def initial_state_def requiredField_def
        checkedField_def plainField_def plainProps_def validateField_def runValidationType_def
        alwaysFails_def alwaysPasses_def validate_def)
  then obtain e1 e2 e3 where calls: "snd (snd (submit lenientForm [1, 0]
       (initial_state [requiredField, checkedField]))) = [e1, e2, e3]"
    by (auto simp: numeral_eq_Suc length_Suc_conv)
  from base_submit_is_stub
      [of lenientForm "[1, 0]" "initial_state [requiredField, checkedField]"]
  have "\<forall>e \<in> set [e1, e2, e3]. handle_of e = BaseValue"
    unfolding calls by blast
  then show ?thesis
    unfolding calls by simp
qed

section \<open>Projection of the passing fields\<close>

lemma path_a: "stringToPath ''a'' = [''a'']"
  and path_bc: "stringToPath ''b.c'' = [''b'', ''c'']"
  and path_l0: "stringToPath ''list[0]'' = [''list'', ''0'']"
  and path_l1: "stringToPath ''list[1]'' = [''list'', ''1'']"
  by (simp_all add: stringToPath_def)

lemma index_examples:
  "index_of ''c'' = None" "index_of ''0'' = Some 0" "index_of ''1'' = Some 1"
  by (simp_all add: index_of_def digit_of_def)

lemma fill_a: "fillPath (JObj kvs) ''a'' v = JObj (assoc_set ''a'' v kvs)"
  by (simp add: fillPath_def path_a)

lemma fill_bc:
  "fillPath (JObj kvs) ''b.c'' v =
     JObj (assoc_set ''b''
       (set_prop (if truthy (get_prop (JObj kvs) ''b'') then get_prop (JObj kvs) ''b'' else JObj [])
          ''c'' v) kvs)"
  by (simp add: fillPath_def path_bc index_examples Let_def)

lemma fill_l0:
  "fillPath (JObj kvs) ''list[0]'' v =
     JObj (assoc_set ''list''
       (set_prop (if truthy (get_prop (JObj kvs) ''list'') then get_prop (JObj kvs) ''list''
                  else JArr [])
          ''0'' v) kvs)"
  by (simp add: fillPath_def path_l0 index_examples Let_def)

lemma fill_l1:
  "fillPath (JObj kvs) ''list[1]'' v =
     JObj (assoc_set ''list''
       (set_prop (if truthy (get_prop (JObj kvs) ''list'') then get_prop (JObj kvs) ''list''
                  else JArr [])
          ''1'' v) kvs)"
  by (simp add: fillPath_def path_l1 index_examples Let_def)

lemma projection_four:
  assumes names: "name (props fa) = ''a''" "name (props fb) = ''b.c''"
      "name (props f0) = ''list[0]''" "name (props f1) = ''list[1]''"
    and d: "distinct gs" and s: "set gs = {fa, fb, f0, f1}"
  shows "sameObject (projection gs)
     (JObj [(''a'', fieldValue fa), (''b'', JObj [(''c'', fieldValue fb)]),
            (''list'', JArr [fieldValue f0, fieldValue f1])])"
proof -
  have ne: "fa \<noteq> fb" "fa \<noteq> f0" "fa \<noteq> f1" "fb \<noteq> f0" "fb \<noteq> f1" "f0 \<noteq> f1"
    using names by auto
  then have "card (set gs) = 4" using s by simp
  then have "length gs = 4" using d by (simp add: distinct_card)
  then obtain g1 g2 g3 g4 where gs: "gs = [g1, g2, g3, g4]"
    by (auto simp: numeral_eq_Suc length_Suc_conv)
  have mem: "g1 \<in> {fa, fb, f0, f1}" "g2 \<in> {fa, fb, f0, f1}" "g3 \<in> {fa, fb, f0, f1}"
    "g4 \<in> {fa, fb, f0, f1}"
    using s gs by auto
  have dd: "distinct [g1, g2, g3, g4]" using d gs by simp
  show ?thesis
    using mem dd ne unfolding gs projection_def
    by (auto simp: names fill_a fill_bc fill_l0 fill_l1 index_examples)
qed

lemma passingFields_all:
  assumes "\<forall>f \<in> set fs. fst (validateField f)" and "set c = {..<length fs}"
  shows "passingFields fs c = map (\<lambda>i. fs ! i) c"
proof -
  have "filter (\<lambda>i. fst (validateField (fs ! i))) c = c"
    using assms by (auto simp: filter_id_conv)
  then show ?thesis by (simp add: passingFields_def)
qed

lemma completed_fields:
  assumes "distinct fs" and "distinct c" and "set c = {..<length fs}"
  shows "distinct (map (\<lambda>i. fs ! i) c) \<and> set (map (\<lambda>i. fs ! i) c) = set fs"
proof -
  have "inj_on (\<lambda>i. fs ! i) (set c)"
    using assms by (auto simp: inj_on_def nth_eq_iff_index_eq)
  then have "distinct (map (\<lambda>i. fs ! i) c)"
    using assms by (simp add: distinct_map)
  moreover have "set (map (\<lambda>i. fs ! i) c) = set fs"
  proof -
    have "set (map (\<lambda>i. fs ! i) c) = (\<lambda>i. fs ! i) ` {0..<length fs}"
      using assms(3) by (simp add: atLeast0LessThan)
    also have "\<dots> = set fs"
      using nth_image [of "length fs" fs] by simp
    finally show ?thesis .
  qed
  ultimately show ?thesis by simp
qed

text \<open>
  C6. Let the registry hold exactly four fields, named \<^verbatim>\<open>a\<close>, \<^verbatim>\<open>b.c\<close>, \<^verbatim>\<open>list[0]\<close> and
  \<^verbatim>\<open>list[1]\<close>, in any order, let all of them pass, and let their chains complete in any
  order. Then the \<open>onSubmit\<close> property is called once, with an object that has the
  entries of \<^verbatim>\<open>{a: va, b: {c: vb}, list: [v0, v1]}\<close> for the four values.
\<close>

theorem deterministic_projection:
  assumes registry: "distinct (formFieldsRef st)" "set (formFieldsRef st) = {fa, fb, f0, f1}"
    and names: "name (props fa) = ''a''" "name (props fb) = ''b.c''"
      "name (props f0) = ''list[0]''" "name (props f1) = ''list[1]''"
    and pass: "\<forall>f \<in> set (formFieldsRef st). fst (validateField f)"
    and completion: "distinct completion" "set completion = {..<length (formFieldsRef st)}"
    and callback: "onSubmit p = Some callback"
  shows "\<exists>values. onSubmitCalls (snd (snd (submit p completion st))) = [(values, BaseValue)]
     \<and> sameObject values
         (JObj [(''a'', fieldValue fa), (''b'', JObj [(''c'', fieldValue fb)]),
                (''list'', JArr [fieldValue f0, fieldValue f1])])"
proof -
  let ?fs = "formFieldsRef st"
  let ?gs = "map (\<lambda>i. ?fs ! i) completion"
  have sub: "set completion \<subseteq> {..<length ?fs}" using completion by simp
  have vals: "filledValues (map (\<lambda>f. fst (snd (validateField f))) ?fs)
        (map (\<lambda>f. fst (validateField f)) ?fs) completion = projection ?gs"
    using filledValues_projection [OF sub] passingFields_all [OF pass completion(2)] by simp
  have "distinct ?gs \<and> set ?gs = {fa, fb, f0, f1}"
    using completed_fields [OF registry(1) completion] registry(2) by simp
  then have same: "sameObject (projection ?gs)
         (JObj [(''a'', fieldValue fa), (''b'', JObj [(''c'', fieldValue fb)]),
                (''list'', JArr [fieldValue f0, fieldValue f1])])"
    using projection_four [OF names] by blast
  have "onSubmitCalls (snd (snd (submit p completion st))) = [(projection ?gs, BaseValue)]"
    using pass callback
    by (simp add: submit_cases Let_def vals calls_no_onSubmit comp_def split: option.splits)
  with same show ?thesis by blast
qed

theorem deterministic_projection_witness:
  "\<exists>values.
     onSubmitCalls (snd (snd (submit lenientForm [3, 0, 2, 1]
       (initial_state
          [plainField ''list[1]'' ''list.1'' (JNum 11), plainField ''a'' ''a'' (JStr ''x''),
           plainField ''list[0]'' ''list.0'' (JNum 10), plainField ''b.c'' ''b.c'' (JBool True)]))))
       = [(values, BaseValue)]
     \<and> sameObject values
         (JObj [(''a'', JStr ''x''), (''b'', JObj [(''c'', JBool True)]),
                (''list'', JArr [JNum 10, JNum 11])])"
proof -
  let ?fa = "plainField ''a'' ''a'' (JStr ''x'')"
  let ?fb = "plainField ''b.c'' ''b.c'' (JBool True)"
  let ?f0 = "plainField ''list[0]'' ''list.0'' (JNum 10)"
  let ?f1 = "plainField ''list[1]'' ''list.1'' (JNum 11)"
  let ?st = "initial_state [?f1, ?fa, ?f0, ?fb]"
  have fields: "formFieldsRef ?st = [?f1, ?fa, ?f0, ?fb]"
    by (simp add: initial_state_def)
  have d: "distinct (formFieldsRef ?st)"
    by (simp only: fields) (simp add: plainField_def plainProps_def)
  have s: "set (formFieldsRef ?st) = {?fa, ?fb, ?f0, ?f1}"
    by (auto simp: fields)
  have names: "name (props ?fa) = ''a''" "name (props ?fb) = ''b.c''"
    "name (props ?f0) = ''list[0]''" "name (props ?f1) = ''list[1]''"
    by (simp_all add: plainField_def plainProps_def)
  have pass: "\<forall>f \<in> set (formFieldsRef ?st). fst (validateField f)"
    by (simp only: fields)
      (simp add: validateField_def runValidationType_def plainField_def plainProps_def)
  have order: "distinct [3, 0, 2, 1 :: nat]"
    "set [3, 0, 2, 1 :: nat] = {..<length (formFieldsRef ?st)}"
    by (auto simp: fields)
  have cb: "onSubmit lenientForm = Some (\<lambda>values form. None)"
    by (simp add: lenientForm_def)
  from deterministic_projection [OF d s names pass order cb]
  show ?thesis by (simp add: plainField_def)
qed

end
